theory Spec2Isabelle
  imports Complex_Main
begin

section \<open>The linear-algebra objects the builders work with\<close>

text \<open>
  The source, \<^verbatim>\<open>hamiltonian_library/models.py\<close>, builds every Hamiltonian from
  objects of the external library QuTiP (\<^verbatim>\<open>qt.destroy\<close>, \<^verbatim>\<open>qt.qeye\<close>,
  \<^verbatim>\<open>qt.sigmax\<close>, \<^verbatim>\<open>qt.tensor\<close>, \<^verbatim>\<open>.dag()\<close>, \<^verbatim>\<open>*\<close>, \<^verbatim>\<open>+\<close>).
  A quantum object carries its subsystem dimensions (\<^verbatim>\<open>dims\<close>), the size of its
  square matrix (\<^verbatim>\<open>shape\<close> is \<open>(sz, sz)\<close>) and the matrix entries.  Entries are
  exact complex numbers: Python floats are read as the reals they denote.
  Every operation below builds its result with \<open>mk\<close>, which keeps the entries
  outside the \<open>sz \<times> sz\<close> block at zero, so that two objects are equal exactly
  when their dims, sizes and matrices are equal.
\<close>

record qobj =
  dims :: "nat list"
  sz :: nat
  ent :: "nat \<Rightarrow> nat \<Rightarrow> complex"

definition mk :: "nat list \<Rightarrow> nat \<Rightarrow> (nat \<Rightarrow> nat \<Rightarrow> complex) \<Rightarrow> qobj" where
  "mk ds n f = \<lparr>dims = ds, sz = n, ent = (\<lambda>i j. if i < n \<and> j < n then f i j else 0)\<rparr>"

definition shape :: "qobj \<Rightarrow> nat \<times> nat" where
  "shape A = (sz A, sz A)"

text \<open>\<^verbatim>\<open>qt.qeye(n)\<close>: the identity on one subsystem of dimension \<open>n\<close>.\<close>

definition qeye :: "nat \<Rightarrow> qobj" where
  "qeye n = mk [n] n (\<lambda>i j. if i = j then 1 else 0)"

text \<open>\<^verbatim>\<open>qt.destroy(n)\<close>: the lowering operator, \<open>sqrt (i + 1)\<close> at row \<open>i\<close>,
  column \<open>i + 1\<close>.  For \<open>n < 2\<close> the call raises \<^verbatim>\<open>ValueError\<close>; \<open>destroy n\<close> is what it
  returns for \<open>n \<ge> 2\<close>, and every builder below tests the size where it makes the call.\<close>

definition destroy :: "nat \<Rightarrow> qobj" where
  "destroy n = mk [n] n (\<lambda>i j. if j = Suc i then complex_of_real (sqrt (real j)) else 0)"

text \<open>The Pauli matrices \<^verbatim>\<open>qt.sigmax()\<close>, \<^verbatim>\<open>qt.sigmay()\<close>, \<^verbatim>\<open>qt.sigmaz()\<close>.\<close>

definition sigmax :: qobj where
  "sigmax = mk [2] 2 (\<lambda>i j. if i = j then 0 else 1)"

definition sigmay :: qobj where
  "sigmay = mk [2] 2 (\<lambda>i j. if i = j then 0 else if i = 0 then - \<i> else \<i>)"

definition sigmaz :: qobj where
  "sigmaz = mk [2] 2 (\<lambda>i j. if i = j then (if i = 0 then 1 else - 1) else 0)"

text \<open>
  \<^verbatim>\<open>qt.jmat(j, 'z')\<close> and \<^verbatim>\<open>qt.jmat(j, 'x')\<close> for the spin \<open>j = n / 2\<close>, a matrix of
  size \<open>n + 1\<close> in the basis \<open>m = j, j - 1, \<dots>, - j\<close>: \<open>J\<^sub>z\<close> is diagonal with
  entries \<open>j - i\<close>, and \<open>J\<^sub>x\<close> is half the sum of the raising operator, with
  \<open>sqrt ((i + 1) (n - i))\<close> at row \<open>i\<close>, column \<open>i + 1\<close>, and its adjoint.
  \<^verbatim>\<open>qt.jmat(0.0, 'x')\<close> raises \<^verbatim>\<open>ValueError\<close>; the Dicke builder tests for it.
\<close>

definition jmat_z :: "nat \<Rightarrow> qobj" where
  "jmat_z n = mk [Suc n] (Suc n)
     (\<lambda>i j. if i = j then complex_of_real (real n / 2 - real i) else 0)"

definition jmat_x :: "nat \<Rightarrow> qobj" where
  "jmat_x n = mk [Suc n] (Suc n)
     (\<lambda>i j. if j = Suc i then complex_of_real (sqrt (real j * (real n - real i)) / 2)
            else if i = Suc j then complex_of_real (sqrt (real i * (real n - real j)) / 2)
            else 0)"

text \<open>The adjoint \<^verbatim>\<open>A.dag()\<close>, the sum \<^verbatim>\<open>A + B\<close>, the scalar multiple \<^verbatim>\<open>c * A\<close>
  and the matrix product \<^verbatim>\<open>A * B\<close> of quantum objects.\<close>

definition dag :: "qobj \<Rightarrow> qobj" where
  "dag A = mk (dims A) (sz A) (\<lambda>i j. cnj (ent A j i))"

definition add :: "qobj \<Rightarrow> qobj \<Rightarrow> qobj" where
  "add A B = mk (dims A) (sz A) (\<lambda>i j. ent A i j + ent B i j)"

definition smult :: "complex \<Rightarrow> qobj \<Rightarrow> qobj" where
  "smult c A = mk (dims A) (sz A) (\<lambda>i j. c * ent A i j)"

definition mult :: "qobj \<Rightarrow> qobj \<Rightarrow> qobj" where
  "mult A B = mk (dims A) (sz A) (\<lambda>i j. \<Sum>k<sz A. ent A i k * ent B k j)"

text \<open>The Kronecker product of two objects, and \<^verbatim>\<open>qt.tensor\<close> of a list,
  which multiplies from the left.  The builders never call it on an empty list.\<close>

definition kron :: "qobj \<Rightarrow> qobj \<Rightarrow> qobj" where
  "kron A B = mk (dims A @ dims B) (sz A * sz B)
     (\<lambda>i j. ent A (i div sz B) (j div sz B) * ent B (i mod sz B) (j mod sz B))"

definition tensor :: "qobj list \<Rightarrow> qobj" where
  "tensor qs = (case qs of [] \<Rightarrow> mk [] 1 (\<lambda>i j. 1) | q # rest \<Rightarrow> foldl kron q rest)"

text \<open>Hermiticity: the matrix equals its conjugate transpose.\<close>

definition isherm :: "qobj \<Rightarrow> bool" where
  "isherm A = (\<forall>i<sz A. \<forall>j<sz A. ent A i j = cnj (ent A j i))"


section \<open>Python values, exceptions and the model object\<close>

text \<open>
  A Python number passed to a builder is an \<^verbatim>\<open>int\<close>, a \<^verbatim>\<open>float\<close> or a \<^verbatim>\<open>complex\<close>;
  \<open>cx\<close> is its value in the arithmetic, where floats are read as the reals they
  denote.  The type matters to \<^verbatim>\<open>json.dumps\<close>, which serialises the first two only.
\<close>

datatype pynum = PInt int | PFloat real | PComplex complex

fun cx :: "pynum \<Rightarrow> complex" where
  "cx (PInt n) = of_int n"
| "cx (PFloat r) = complex_of_real r"
| "cx (PComplex c) = c"


text \<open>
  A value computed in the builders is a number or a quantum object: the accumulators
  start at the integer \<^verbatim>\<open>0\<close> and become quantum objects once an operator is added.
\<close>

datatype pyval = Num complex | Op qobj

datatype error = AttributeError | ZeroDivisionError | TypeError | ValueError

text \<open>
  \<^verbatim>\<open>x + y\<close>.  A number added to an operator is added as a multiple of the identity,
  and adding \<^verbatim>\<open>0\<close> returns the operator itself.  Two quantum objects are added
  entry by entry (the builders only add objects over the same space).
\<close>

definition py_add :: "pyval \<Rightarrow> pyval \<Rightarrow> pyval" where
  "py_add x y =
     (case (x, y) of
        (Num a, Num b) \<Rightarrow> Num (a + b)
      | (Num a, Op B) \<Rightarrow>
          (if a = 0 then Op B
           else Op (add B (mk (dims B) (sz B) (\<lambda>i j. if i = j then a else 0))))
      | (Op A, Num b) \<Rightarrow>
          (if b = 0 then Op A
           else Op (add A (mk (dims A) (sz A) (\<lambda>i j. if i = j then b else 0))))
      | (Op A, Op B) \<Rightarrow> Op (add A B))"

text \<open>\<^verbatim>\<open>x * y\<close>: a number scales an operator, two operators are multiplied.\<close>

definition py_mul :: "pyval \<Rightarrow> pyval \<Rightarrow> pyval" where
  "py_mul x y =
     (case (x, y) of
        (Num a, Num b) \<Rightarrow> Num (a * b)
      | (Num a, Op B) \<Rightarrow> Op (smult a B)
      | (Op A, Num b) \<Rightarrow> Op (smult b A)
      | (Op A, Op B) \<Rightarrow> Op (mult A B))"

text \<open>\<^verbatim>\<open>x.dag()\<close>: a Python number has no such attribute.\<close>

definition py_dag :: "pyval \<Rightarrow> error + pyval" where
  "py_dag x = (case x of Num a \<Rightarrow> Inl AttributeError | Op A \<Rightarrow> Inr (Op (dag A)))"

text \<open>The builtin \<^verbatim>\<open>sum\<close>: starts at \<^verbatim>\<open>0\<close> and adds from the left.\<close>

definition py_sum :: "pyval list \<Rightarrow> pyval" where
  "py_sum xs = foldl py_add (Num 0) xs"

text \<open>
  \<^verbatim>\<open>class HamiltonianBase\<close>: the name, the parameter dictionary (in insertion
  order) and the stored Hamiltonian \<^verbatim>\<open>self.H\<close>, which is \<^verbatim>\<open>None\<close> until a build.
\<close>

record HamiltonianBase =
  name :: string
  params :: "(string \<times> pynum) list"
  H :: "pyval option"

definition init :: "string \<Rightarrow> (string \<times> pynum) list option \<Rightarrow> HamiltonianBase" where
  "init nm ps = \<lparr>name = nm, params = (case ps of None \<Rightarrow> [] | Some p \<Rightarrow> p), H = None\<rparr>"

section \<open>Serialisation: \<^verbatim>\<open>to_json\<close>\<close>






section \<open>The six model builders\<close>

text \<open>
  Each \<^verbatim>\<open>build\<close> takes the object and the parameters and returns the value it
  returns (or the exception it raises) together with the updated object:
  \<^verbatim>\<open>self.params\<close> is assigned first, \<^verbatim>\<open>self.H\<close> last.  A call of \<^verbatim>\<open>qt.destroy\<close> with
  a dimension below \<open>2\<close> raises \<^verbatim>\<open>ValueError\<close> and leaves \<^verbatim>\<open>self.H\<close> as it was.
\<close>

definition JaynesCummings_build ::
  "HamiltonianBase \<Rightarrow> nat \<Rightarrow> pynum \<Rightarrow> pynum \<Rightarrow> pynum \<Rightarrow> (error + pyval) \<times> HamiltonianBase" where
  "JaynesCummings_build self N wc wa g =
     (let self = self\<lparr>params := [(''N'', PInt (int N)), (''wc'', wc), (''wa'', wa), (''g'', g)]\<rparr>
      in if N < 2 then (Inl ValueError, self)
         else
           (let a = tensor [destroy N, qeye 2];
                sm = tensor [qeye N, destroy 2];
                Hv = add (add (mult (smult (cx wc) (dag a)) a) (mult (smult (cx wa) (dag sm)) sm))
                         (smult (cx g) (add (mult (dag a) sm) (mult a (dag sm))))
            in (Inr (Op Hv), self\<lparr>H := Some (Op Hv)\<rparr>)))"

definition RabiModel_build ::
  "HamiltonianBase \<Rightarrow> nat \<Rightarrow> pynum \<Rightarrow> pynum \<Rightarrow> pynum \<Rightarrow> (error + pyval) \<times> HamiltonianBase" where
  "RabiModel_build self N wc wa g =
     (let self = self\<lparr>params := [(''N'', PInt (int N)), (''wc'', wc), (''wa'', wa), (''g'', g)]\<rparr>
      in if N < 2 then (Inl ValueError, self)
         else
           (let a = tensor [destroy N, qeye 2];
                sx = tensor [qeye N, sigmax];
                sz = tensor [qeye N, sigmaz];
                Hv = add (add (mult (smult (cx wc) (dag a)) a) (smult (0.5 * cx wa) sz))
                         (mult (smult (cx g) (add (dag a) a)) sx)
            in (Inr (Op Hv), self\<lparr>H := Some (Op Hv)\<rparr>)))"

text \<open>The loop of \<^verbatim>\<open>TavisCummings.build\<close> over the atoms, on the two accumulators
  \<^verbatim>\<open>sz_tot\<close> and \<^verbatim>\<open>sm_tot\<close>.\<close>

fun tc_loop :: "nat \<Rightarrow> nat \<Rightarrow> nat list \<Rightarrow> pyval \<times> pyval \<Rightarrow> pyval \<times> pyval" where
  "tc_loop N_atoms N_cavity [] acc = acc"
| "tc_loop N_atoms N_cavity (i # rest) (sz_tot, sm_tot) =
     tc_loop N_atoms N_cavity rest
       (py_add sz_tot (Op (tensor ([qeye N_cavity] @ (replicate N_atoms (qeye 2))[i := sigmaz]))),
        py_add sm_tot (Op (tensor ([qeye N_cavity] @ (replicate N_atoms (qeye 2))[i := destroy 2]))))"

definition TavisCummings_build ::
  "HamiltonianBase \<Rightarrow> nat \<Rightarrow> nat \<Rightarrow> pynum \<Rightarrow> pynum \<Rightarrow> pynum \<Rightarrow> (error + pyval) \<times> HamiltonianBase" where
  "TavisCummings_build self N_atoms N_cavity wc wa g =
     (let self = self\<lparr>params := [(''N_atoms'', PInt (int N_atoms)), (''N_cavity'', PInt (int N_cavity)),
                                  (''wc'', wc), (''wa'', wa), (''g'', g)]\<rparr>
      in if N_cavity < 2 then (Inl ValueError, self)
         else
           (let a = tensor [destroy N_cavity, qeye (2 ^ N_atoms)];
                (sz_tot, sm_tot) = tc_loop N_atoms N_cavity [0..<N_atoms] (Num 0, Num 0);
                a_field = tensor ([destroy N_cavity] @ replicate N_atoms (qeye 2))
            in case py_dag sm_tot of
                 Inl e \<Rightarrow> (Inl e, self)
               | Inr sm_tot_dag \<Rightarrow>
                   (let Hv = py_add (py_add (Op (mult (smult (cx wc) (dag a_field)) a_field))
                                            (py_mul (Num (0.5 * cx wa)) sz_tot))
                                    (py_mul (Num (cx g))
                                       (py_add (py_mul (Op (dag a_field)) sm_tot)
                                               (py_mul (Op a_field) sm_tot_dag)))
                    in (Inr Hv, self\<lparr>H := Some Hv\<rparr>))))"

text \<open>\<^verbatim>\<open>DickeModel.build\<close>: \<^verbatim>\<open>j = N_atoms / 2.0\<close>, so \<^verbatim>\<open>int(2*j + 1)\<close> is
  \<open>N_atoms + 1\<close>.  With no atoms \<^verbatim>\<open>qt.jmat(j, 'x')\<close> raises \<^verbatim>\<open>ValueError\<close>, before the
  division by \<^verbatim>\<open>N_atoms**0.5\<close> could raise \<^verbatim>\<open>ZeroDivisionError\<close>.\<close>

definition DickeModel_build ::
  "HamiltonianBase \<Rightarrow> nat \<Rightarrow> nat \<Rightarrow> pynum \<Rightarrow> pynum \<Rightarrow> pynum \<Rightarrow> (error + pyval) \<times> HamiltonianBase" where
  "DickeModel_build self N_atoms N_cavity wc wa g =
     (let self = self\<lparr>params := [(''N_atoms'', PInt (int N_atoms)), (''N_cavity'', PInt (int N_cavity)),
                                  (''wc'', wc), (''wa'', wa), (''g'', g)]\<rparr>
      in if N_cavity < 2 then (Inl ValueError, self)
         else if N_atoms = 0 then (Inl ValueError, self)
         else
           (let a = tensor [destroy N_cavity, qeye (Suc N_atoms)];
                jz = tensor [qeye N_cavity, jmat_z N_atoms];
                jx = tensor [qeye N_cavity, jmat_x N_atoms]
            in if sqrt (real N_atoms) = 0 then (Inl ZeroDivisionError, self)
               else
                 (let Hv = add (add (mult (smult (cx wc) (dag a)) a) (smult (cx wa) jz))
                               (mult (smult (cx g / complex_of_real (sqrt (real N_atoms)))
                                        (add (dag a) a)) jx)
                  in (Inr (Op Hv), self\<lparr>H := Some (Op Hv)\<rparr>))))"

text \<open>The first loop of \<^verbatim>\<open>HeisenbergSpinChain.build\<close>, appending one embedded
  Pauli operator per site to each of the three lists.\<close>

fun heis_loop :: "nat \<Rightarrow> nat list \<Rightarrow> qobj list \<times> qobj list \<times> qobj list \<Rightarrow>
    qobj list \<times> qobj list \<times> qobj list" where
  "heis_loop N_spins [] acc = acc"
| "heis_loop N_spins (n # rest) (sx_list, sy_list, sz_list) =
     heis_loop N_spins rest
       (sx_list @ [tensor ((replicate N_spins (qeye 2))[n := sigmax])],
        sy_list @ [tensor ((replicate N_spins (qeye 2))[n := sigmay])],
        sz_list @ [tensor ((replicate N_spins (qeye 2))[n := sigmaz])])"

definition HeisenbergSpinChain_build ::
  "HamiltonianBase \<Rightarrow> nat \<Rightarrow> pynum \<Rightarrow> pynum \<Rightarrow> pynum \<Rightarrow> (error + pyval) \<times> HamiltonianBase" where
  "HeisenbergSpinChain_build self N_spins Jx Jy Jz =
     (let self = self\<lparr>params := [(''N_spins'', PInt (int N_spins)), (''Jx'', Jx), (''Jy'', Jy),
                                  (''Jz'', Jz)]\<rparr>;
          (sx_list, sy_list, sz_list) = heis_loop N_spins [0..<N_spins] ([], [], []);
          Hv = foldl (\<lambda>h n. py_add h
                  (Op (add (add (mult (smult (cx Jx) (sx_list ! n)) (sx_list ! (n + 1)))
                                (mult (smult (cx Jy) (sy_list ! n)) (sy_list ! (n + 1))))
                           (mult (smult (cx Jz) (sz_list ! n)) (sz_list ! (n + 1))))))
                 (Num 0) [0..<N_spins - 1]
      in (Inr Hv, self\<lparr>H := Some Hv\<rparr>))"

text \<open>\<^verbatim>\<open>BoseHubbard.build\<close>: the list \<^verbatim>\<open>ops\<close> calls \<^verbatim>\<open>qt.destroy(N_levels)\<close> once per
  site, so with at least one site fewer than two levels raise.\<close>

definition BoseHubbard_build ::
  "HamiltonianBase \<Rightarrow> nat \<Rightarrow> nat \<Rightarrow> pynum \<Rightarrow> pynum \<Rightarrow> (error + pyval) \<times> HamiltonianBase" where
  "BoseHubbard_build self N_sites N_levels t U =
     (let self = self\<lparr>params := [(''N_sites'', PInt (int N_sites)), (''N_levels'', PInt (int N_levels)),
                                  (''t'', t), (''U'', U)]\<rparr>
      in if 0 < N_sites \<and> N_levels < 2 then (Inl ValueError, self)
         else
           (let ops = map (\<lambda>_. destroy N_levels) [0..<N_sites];
                a = map (\<lambda>j. tensor (map (\<lambda>i. if i = j then ops ! j else qeye N_levels)
                                          [0..<N_sites]))
                        [0..<N_sites];
                H_hop = py_sum (map (\<lambda>i. Op (smult (- cx t)
                            (add (mult (dag (a ! i)) (a ! (i + 1)))
                                 (mult (dag (a ! (i + 1))) (a ! i)))))
                          [0..<N_sites - 1]);
                H_int = py_sum (map (\<lambda>i. Op (mult (mult (mult (smult (0.5 * cx U) (dag (a ! i)))
                                                              (dag (a ! i)))
                                                        (a ! i)) (a ! i)))
                          [0..<N_sites]);
                Hv = py_add H_hop H_int
            in (Inr Hv, self\<lparr>H := Some Hv\<rparr>)))"

section \<open>Auxiliary notions for the proofs\<close>

text \<open>An object is well formed when its entries vanish outside its matrix; every
  object the library functions above return is.\<close>

definition wf :: "qobj \<Rightarrow> bool" where
  "wf A = (\<forall>i j. \<not> (i < sz A \<and> j < sz A) \<longrightarrow> ent A i j = 0)"

text \<open>
  The source embeds a local operator at one site by replacing one entry of a list of
  identities and taking the tensor product:
  \<^verbatim>\<open>op_list = [si] * N_spins; op_list[n] = sx; qt.tensor(op_list)\<close>.
  \<open>embed_single ds A i\<close> is this construction over a space with subsystem dimensions
  \<open>ds\<close>.
\<close>

definition embed_single :: "nat list \<Rightarrow> qobj \<Rightarrow> nat \<Rightarrow> qobj" where
  "embed_single ds A i = tensor ((map qeye ds)[i := A])"

text \<open>
  The joint embedding in the words of the specification: the tensor product in
  index order, each listed index replaced by its local operator and every unlisted
  index by the identity of that subsystem's dimension.
\<close>

definition embed_joint :: "nat list \<Rightarrow> (nat \<rightharpoonup> qobj) \<Rightarrow> qobj" where
  "embed_joint ds ops =
     tensor (map (\<lambda>k. case ops k of Some A \<Rightarrow> A | None \<Rightarrow> qeye (ds ! k)) [0..<length ds])"

text \<open>A matrix is banded with offset \<open>k\<close> when its only non-zero entries are at
  column = row + \<open>k\<close>; offset \<open>0\<close> means diagonal.\<close>

definition band :: "int \<Rightarrow> qobj \<Rightarrow> bool" where
  "band k A = (\<forall>i j. ent A i j \<noteq> 0 \<longrightarrow> int j = int i + k)"

text \<open>
  The nearest-neighbour coupling term of the Heisenberg chain in the words of the
  specification: \<open>Jx\<close> times \<open>\<sigma>\<^sub>x\<close> at sites \<open>n\<close> and \<open>n + 1\<close>, plus the same with
  \<open>Jy\<close>, \<open>\<sigma>\<^sub>y\<close> and with \<open>Jz\<close>, \<open>\<sigma>\<^sub>z\<close>; each product is a joint embedding at
  the two adjacent sites of a chain of \<open>N\<close> spins.
\<close>

definition heis_coupling :: "nat \<Rightarrow> complex \<Rightarrow> complex \<Rightarrow> complex \<Rightarrow> nat \<Rightarrow> qobj" where
  "heis_coupling N Jx Jy Jz n =
     add (add (smult Jx (embed_joint (replicate N 2) [n \<mapsto> sigmax, n + 1 \<mapsto> sigmax]))
              (smult Jy (embed_joint (replicate N 2) [n \<mapsto> sigmay, n + 1 \<mapsto> sigmay])))
         (smult Jz (embed_joint (replicate N 2) [n \<mapsto> sigmaz, n + 1 \<mapsto> sigmaz]))"

text \<open>
  The summands of the two sums of \<^verbatim>\<open>BoseHubbard.build\<close>, written with the site
  operators \<open>a\<^sub>j\<close> = \<open>embed_single (replicate M L) (destroy L) j\<close>, and the number
  operator \<open>dag a\<^sub>j * a\<^sub>j\<close> of site \<open>j\<close>.
\<close>

definition bh_hop :: "nat \<Rightarrow> nat \<Rightarrow> complex \<Rightarrow> nat \<Rightarrow> qobj" where
  "bh_hop M L t i =
     smult (- t)
       (add (mult (dag (embed_single (replicate M L) (destroy L) i))
                  (embed_single (replicate M L) (destroy L) (i + 1)))
            (mult (dag (embed_single (replicate M L) (destroy L) (i + 1)))
                  (embed_single (replicate M L) (destroy L) i)))"

definition bh_ons :: "nat \<Rightarrow> nat \<Rightarrow> complex \<Rightarrow> nat \<Rightarrow> qobj" where
  "bh_ons M L U i =
     mult (mult (mult (smult (0.5 * U) (dag (embed_single (replicate M L) (destroy L) i)))
                      (dag (embed_single (replicate M L) (destroy L) i)))
                (embed_single (replicate M L) (destroy L) i))
          (embed_single (replicate M L) (destroy L) i)"

definition site_number :: "nat \<Rightarrow> nat \<Rightarrow> nat \<Rightarrow> qobj" where
  "site_number M L j =
     mult (dag (embed_single (replicate M L) (destroy L) j))
          (embed_single (replicate M L) (destroy L) j)"



section \<open>Basic facts about quantum objects\<close>

lemma dims_mk [simp]: "dims (mk ds n f) = ds"
  by (simp add: mk_def)

lemma sz_mk [simp]: "sz (mk ds n f) = n"
  by (simp add: mk_def)

lemma ent_mk_in [simp]: "i < n \<Longrightarrow> j < n \<Longrightarrow> ent (mk ds n f) i j = f i j"
  by (simp add: mk_def)

lemma ent_mk_out [simp]: "\<not> (i < n \<and> j < n) \<Longrightarrow> ent (mk ds n f) i j = 0"
  by (auto simp: mk_def)

lemma mk_eqI:
  "ds = ds' \<Longrightarrow> n = n' \<Longrightarrow> (\<And>i j. i < n \<Longrightarrow> j < n \<Longrightarrow> f i j = g i j) \<Longrightarrow> mk ds n f = mk ds' n' g"
  by (auto simp: mk_def fun_eq_iff)

lemma wf_mk [simp]: "wf (mk ds n f)"
  by (simp add: wf_def)

lemma mk_self: "wf A \<Longrightarrow> mk (dims A) (sz A) (ent A) = A"
  by (cases A) (auto simp: mk_def wf_def fun_eq_iff)

lemma sz_ops [simp]:
  "sz (dag A) = sz A" "sz (add A B) = sz A" "sz (smult c A) = sz A" "sz (mult A B) = sz A"
  "sz (kron A B) = sz A * sz B" "sz (qeye n) = n" "sz (destroy n) = n"
  "sz sigmax = 2" "sz sigmay = 2" "sz sigmaz = 2" "sz (jmat_z n) = Suc n" "sz (jmat_x n) = Suc n"
  by (simp_all add: dag_def add_def smult_def mult_def kron_def qeye_def destroy_def
      sigmax_def sigmay_def sigmaz_def jmat_z_def jmat_x_def)

lemma dims_ops [simp]:
  "dims (dag A) = dims A" "dims (add A B) = dims A" "dims (smult c A) = dims A"
  "dims (mult A B) = dims A" "dims (kron A B) = dims A @ dims B" "dims (qeye n) = [n]"
  "dims (destroy n) = [n]" "dims sigmax = [2]" "dims sigmay = [2]" "dims sigmaz = [2]"
  "dims (jmat_z n) = [Suc n]" "dims (jmat_x n) = [Suc n]"
  by (simp_all add: dag_def add_def smult_def mult_def kron_def qeye_def destroy_def
      sigmax_def sigmay_def sigmaz_def jmat_z_def jmat_x_def)

lemma wf_ops [simp]:
  "wf (dag A)" "wf (add A B)" "wf (smult c A)" "wf (mult A B)" "wf (kron A B)" "wf (qeye n)"
  "wf (destroy n)" "wf sigmax" "wf sigmay" "wf sigmaz" "wf (jmat_z n)" "wf (jmat_x n)"
  by (simp_all add: dag_def add_def smult_def mult_def kron_def qeye_def destroy_def
      sigmax_def sigmay_def sigmaz_def jmat_z_def jmat_x_def)

subsection \<open>Adjoint, product and Kronecker product\<close>




lemma sum_div_mod:
  "(\<Sum>k<n * (m::nat). F (k div m) (k mod m)) = (\<Sum>a<n. \<Sum>b<m. (F a b :: complex))"
proof -
  have "(\<Sum>k<n * m. F (k div m) (k mod m))
      = (\<Sum>a<n. \<Sum>k = a * m..<a * m + m. F (k div m) (k mod m))"
    by (simp add: sum.nat_group)
  also have "\<dots> = (\<Sum>a<n. \<Sum>b<m. F a b)"
  proof (rule sum.cong[OF refl])
    fix a
    have "(\<Sum>k = a * m..<a * m + m. F (k div m) (k mod m))
        = (\<Sum>b = 0..<m. F ((b + a * m) div m) ((b + a * m) mod m))"
      using sum.shift_bounds_nat_ivl[of "\<lambda>k. F (k div m) (k mod m)" 0 "a * m" m]
      by (simp add: add.commute)
    also have "\<dots> = (\<Sum>b<m. F a b)"
      by (intro sum.cong) (auto simp: atLeast0LessThan)
    finally show "(\<Sum>k = a * m..<a * m + m. F (k div m) (k mod m)) = (\<Sum>b<m. F a b)" .
  qed
  finally show ?thesis .
qed

text \<open>The mixed-product rule: a product of Kronecker products is the Kronecker
  product of the products.\<close>

lemma kron_mult:
  assumes "sz A = sz C" "sz B = sz D" "dims A = dims C" "dims B = dims D"
  shows "mult (kron A B) (kron C D) = kron (mult A C) (mult B D)"
  unfolding mult_def[of "kron A B"] kron_def[of "mult A C"]
proof (rule mk_eqI)
  fix i j assume ij: "i < sz (kron A B)" "j < sz (kron A B)"
  let ?n = "sz A" and ?m = "sz B"
  have m: "0 < ?m" using ij by (cases "?m = 0") auto
  have i: "i div ?m < ?n" "i mod ?m < ?m" "j div ?m < ?n" "j mod ?m < ?m"
    using ij m by (auto simp: less_mult_imp_div_less mult.commute)
  have "(\<Sum>k<sz (kron A B). ent (kron A B) i k * ent (kron C D) k j)
      = (\<Sum>k<?n * ?m. (ent A (i div ?m) (k div ?m) * ent C (k div ?m) (j div ?m)) *
            (ent B (i mod ?m) (k mod ?m) * ent D (k mod ?m) (j mod ?m)))"
    using ij assms
    by (intro sum.cong) (auto simp: kron_def mult.commute less_mult_imp_div_less)
  also have "\<dots> = (\<Sum>a<?n. \<Sum>b<?m. (ent A (i div ?m) a * ent C a (j div ?m)) *
            (ent B (i mod ?m) b * ent D b (j mod ?m)))"
    by (rule sum_div_mod[of "\<lambda>a b. (ent A (i div ?m) a * ent C a (j div ?m)) *
            (ent B (i mod ?m) b * ent D b (j mod ?m))"])
  also have "\<dots> = ent (mult A C) (i div sz (mult B D)) (j div sz (mult B D)) *
      ent (mult B D) (i mod sz (mult B D)) (j mod sz (mult B D))"
    using i by (simp add: mult_def sum_product)
  finally show "(\<Sum>k<sz (kron A B). ent (kron A B) i k * ent (kron C D) k j)
      = ent (mult A C) (i div sz (mult B D)) (j div sz (mult B D)) *
        ent (mult B D) (i mod sz (mult B D)) (j mod sz (mult B D))" .
qed (use assms in simp_all)

subsection \<open>Sizes and dims of tensor products\<close>

lemma sz_foldl_kron: "sz (foldl kron q qs) = sz q * prod_list (map sz qs)"
  by (induction qs arbitrary: q) (simp_all add: mult.assoc)

lemma dims_foldl_kron: "dims (foldl kron q qs) = dims q @ concat (map dims qs)"
  by (induction qs arbitrary: q) simp_all

lemma sz_tensor: "sz (tensor qs) = prod_list (map sz qs)"
  by (cases qs) (simp_all add: tensor_def sz_foldl_kron)

lemma dims_tensor: "dims (tensor qs) = concat (map dims qs)"
  by (cases qs) (simp_all add: tensor_def dims_foldl_kron)


subsection \<open>Algebra of quantum objects\<close>

lemma div_mod_less: "i < n * m \<Longrightarrow> i div m < n \<and> i mod m < (m::nat)"
  by (cases "m = 0") (auto simp: less_mult_imp_div_less mult.commute)



lemma dag_smult: "dag (smult c A) = smult (cnj c) (dag A)"
  unfolding dag_def[of "smult c A"] smult_def[of _ "dag A"]
  by (rule mk_eqI) (simp_all add: smult_def dag_def)

lemma mult_smult_left: "mult (smult c A) B = smult c (mult A B)"
  unfolding mult_def[of "smult c A"] smult_def[of _ "mult A B"]
  by (rule mk_eqI) (simp_all add: smult_def mult_def sum_distrib_left mult.assoc)

lemma mult_smult_right: "sz A = sz B \<Longrightarrow> mult A (smult c B) = smult c (mult A B)"
  unfolding mult_def[of A "smult c B"] smult_def[of _ "mult A B"]
  by (rule mk_eqI) (simp_all add: smult_def mult_def sum_distrib_left mult.assoc mult.left_commute)

lemma mult_qeye_right: "wf A \<Longrightarrow> sz A = n \<Longrightarrow> mult A (qeye n) = A"
  unfolding mult_def
  by (subst (5) mk_self[symmetric], assumption, rule mk_eqI) (simp_all add: qeye_def if_distrib[of "\<lambda>x. _ * x"] cong: if_cong)

lemma mult_qeye_left: "wf A \<Longrightarrow> sz A = n \<Longrightarrow> dims A = [n] \<Longrightarrow> mult (qeye n) A = A"
  unfolding mult_def
  by (subst (4) mk_self[symmetric], assumption, rule mk_eqI) (simp_all add: qeye_def if_distrib[of "\<lambda>x. x * _"] cong: if_cong)





lemma foldl_kron_mult:
  "list_all2 (\<lambda>a b. sz a = sz b \<and> dims a = dims b) qs rs \<Longrightarrow> sz q = sz r \<Longrightarrow> dims q = dims r \<Longrightarrow>
   mult (foldl kron q qs) (foldl kron r rs) = foldl kron (mult q r) (map2 mult qs rs)"
proof (induction qs rs arbitrary: q r rule: list_all2_induct)
  case Nil
  then show ?case by simp
next
  case (Cons a qs b rs)
  have "mult (foldl kron (kron q a) qs) (foldl kron (kron r b) rs)
      = foldl kron (mult (kron q a) (kron r b)) (map2 mult qs rs)"
    using Cons.hyps(1) Cons.prems by (intro Cons.IH) simp_all
  then show ?case using Cons.hyps(1) Cons.prems by (simp add: kron_mult)
qed

lemma tensor_mult:
  "list_all2 (\<lambda>a b. sz a = sz b \<and> dims a = dims b) qs rs \<Longrightarrow> qs \<noteq> [] \<Longrightarrow>
   mult (tensor qs) (tensor rs) = tensor (map2 mult qs rs)"
  by (cases qs; cases rs) (simp_all add: tensor_def foldl_kron_mult)




lemma wf_foldl_kron: "wf q \<Longrightarrow> wf (foldl kron q qs)"
  by (induction qs arbitrary: q) simp_all

lemma wf_tensor: "\<forall>q\<in>set qs. wf q \<Longrightarrow> wf (tensor qs)"
  by (cases qs) (simp_all add: tensor_def wf_foldl_kron)

lemma ishermI: "(\<And>i j. i < sz A \<Longrightarrow> j < sz A \<Longrightarrow> ent A i j = cnj (ent A j i)) \<Longrightarrow> isherm A"
  unfolding isherm_def by blast

lemma ishermD: "isherm A \<Longrightarrow> i < sz A \<Longrightarrow> j < sz A \<Longrightarrow> ent A i j = cnj (ent A j i)"
  unfolding isherm_def by blast

lemma isherm_iff_dag: "wf A \<Longrightarrow> isherm A \<longleftrightarrow> dag A = A"
proof
  assume w: "wf A" and h: "isherm A"
  have "mk (dims A) (sz A) (\<lambda>i j. cnj (ent A j i)) = mk (dims A) (sz A) (ent A)"
  proof (rule mk_eqI)
    fix i j assume "i < sz A" "j < sz A"
    then show "cnj (ent A j i) = ent A i j" using ishermD[OF h, of i j] by simp
  qed simp_all
  then show "dag A = A" using w by (simp add: dag_def mk_self)
next
  assume "dag A = A"
  then have e: "\<And>i j. ent (dag A) i j = ent A i j" by simp
  show "isherm A"
  proof (rule ishermI)
    fix i j assume "i < sz A" "j < sz A"
    then show "ent A i j = cnj (ent A j i)" using e[of i j] by (simp add: dag_def)
  qed
qed

lemma isherm_add:
  assumes "isherm A" "isherm B" "sz A = sz B"
  shows "isherm (add A B)"
proof (rule ishermI)
  fix i j assume "i < sz (add A B)" "j < sz (add A B)"
  then show "ent (add A B) i j = cnj (ent (add A B) j i)"
    using ishermD[OF assms(1), of i j] ishermD[OF assms(2), of i j] assms(3)
    by (simp add: add_def)
qed

lemma isherm_smult:
  assumes "Im c = 0" "isherm A"
  shows "isherm (smult c A)"
proof (rule ishermI)
  fix i j assume ij: "i < sz (smult c A)" "j < sz (smult c A)"
  have c: "cnj c = c" using assms(1) by (simp add: complex_eq_iff)
  show "ent (smult c A) i j = cnj (ent (smult c A) j i)"
    using ij c ishermD[OF assms(2), of i j] by (simp add: smult_def)
qed

lemma isherm_kron:
  assumes "isherm A" "isherm B"
  shows "isherm (kron A B)"
proof (rule ishermI)
  fix i j assume "i < sz (kron A B)" "j < sz (kron A B)"
  then have ij: "i < sz A * sz B" "j < sz A * sz B" by simp_all
  show "ent (kron A B) i j = cnj (ent (kron A B) j i)"
    using ij div_mod_less[OF ij(1)] div_mod_less[OF ij(2)]
      ishermD[OF assms(1), of "i div sz B" "j div sz B"]
      ishermD[OF assms(2), of "i mod sz B" "j mod sz B"]
    by (simp add: kron_def)
qed

lemma isherm_foldl_kron: "isherm q \<Longrightarrow> \<forall>x\<in>set qs. isherm x \<Longrightarrow> isherm (foldl kron q qs)"
  by (induction qs arbitrary: q) (simp_all add: isherm_kron)

lemma isherm_tensor: "\<forall>x\<in>set qs. isherm x \<Longrightarrow> isherm (tensor qs)"
proof (cases qs)
  case Nil
  then show ?thesis by (simp add: tensor_def isherm_def)
next
  case (Cons q rest)
  assume "\<forall>x\<in>set qs. isherm x"
  then show ?thesis using Cons by (simp add: tensor_def isherm_foldl_kron)
qed





lemma isherm_qeye: "isherm (qeye n)"
  by (rule ishermI) (simp add: qeye_def)

lemma isherm_sigmax: "isherm sigmax"
  by (rule ishermI) (simp add: sigmax_def)

lemma isherm_sigmay: "isherm sigmay"
  by (rule ishermI) (simp add: sigmay_def)

lemma isherm_sigmaz: "isherm sigmaz"
  by (rule ishermI) (simp add: sigmaz_def)




subsection \<open>Hermiticity of the six builders\<close>






subsection \<open>Embedding a local operator at one site\<close>

lemma local_ok_mult:
  assumes "i < length ds" "j < length ds" "i \<noteq> j"
    and A: "wf A" "sz A = ds ! i" "dims A = [ds ! i]"
    and B: "wf B" "sz B = ds ! j" "dims B = [ds ! j]"
  shows "map2 mult ((map qeye ds)[i := A]) ((map qeye ds)[j := B]) = (map qeye ds)[i := A, j := B]"
proof (rule nth_equalityI)
  show "length (map2 mult ((map qeye ds)[i := A]) ((map qeye ds)[j := B])) = length ((map qeye ds)[i := A, j := B])"
    by simp
next
  fix k assume "k < length (map2 mult ((map qeye ds)[i := A]) ((map qeye ds)[j := B]))"
  then have k: "k < length ds" by simp
  show "map2 mult ((map qeye ds)[i := A]) ((map qeye ds)[j := B]) ! k = (map qeye ds)[i := A, j := B] ! k"
    using k assms by (auto simp: nth_list_update mult_qeye_right mult_qeye_left)
qed

lemma embed_compat:
  assumes "i < length ds" "j < length ds"
    and A: "sz A = ds ! i" "dims A = [ds ! i]"
    and B: "sz B = ds ! j" "dims B = [ds ! j]"
  shows "list_all2 (\<lambda>a b. sz a = sz b \<and> dims a = dims b) ((map qeye ds)[i := A]) ((map qeye ds)[j := B])"
  using assms by (auto simp: list_all2_conv_all_nth nth_list_update)

lemma embed_mult:
  assumes "i < length ds" "j < length ds" "i \<noteq> j"
    and A: "wf A" "sz A = ds ! i" "dims A = [ds ! i]"
    and B: "wf B" "sz B = ds ! j" "dims B = [ds ! j]"
  shows "mult (embed_single ds A i) (embed_single ds B j) = tensor ((map qeye ds)[i := A, j := B])"
proof -
  have ne: "(map qeye ds)[i := A] \<noteq> []" using assms(1) by auto
  show ?thesis
    unfolding embed_single_def
    using tensor_mult[OF embed_compat[OF assms(1,2) A(2,3) B(2,3)] ne] local_ok_mult[OF assms]
    by simp
qed


lemma embed_joint_two:
  assumes "i < length ds" "j < length ds" "i \<noteq> j"
  shows "embed_joint ds [i \<mapsto> A, j \<mapsto> B] = tensor ((map qeye ds)[i := A, j := B])"
proof -
  have "map (\<lambda>k. case [i \<mapsto> A, j \<mapsto> B] k of Some A \<Rightarrow> A | None \<Rightarrow> qeye (ds ! k)) [0..<length ds]
      = (map qeye ds)[i := A, j := B]"
    using assms by (intro nth_equalityI) (auto simp: nth_list_update)
  then show ?thesis by (simp add: embed_joint_def)
qed



lemma wf_embed: "wf A \<Longrightarrow> wf (embed_single ds A i)"
  unfolding embed_single_def
  by (rule wf_tensor) (auto dest!: set_update_subset_insert[THEN subsetD])

lemma sz_embed: "i < length ds \<Longrightarrow> sz A = ds ! i \<Longrightarrow> sz (embed_single ds A i) = prod_list ds"
proof -
  assume a: "i < length ds" "sz A = ds ! i"
  have "map sz ((map qeye ds)[i := A]) = ds"
    using a by (intro nth_equalityI) (auto simp: nth_list_update)
  then show ?thesis by (simp add: embed_single_def sz_tensor)
qed

lemma concat_singletons: "concat (map (\<lambda>n. [n]) ds) = ds"
  by (induction ds) simp_all

lemma dims_embed: "i < length ds \<Longrightarrow> dims A = [ds ! i] \<Longrightarrow> dims (embed_single ds A i) = ds"
proof -
  assume a: "i < length ds" "dims A = [ds ! i]"
  have "map dims ((map qeye ds)[i := A]) = map (\<lambda>n. [n]) ds"
    using a by (intro nth_equalityI) (auto simp: nth_list_update)
  then show ?thesis by (simp add: embed_single_def dims_tensor concat_singletons)
qed

subsection \<open>Python sums of operators and the Heisenberg chain\<close>

lemma py_add_simps [simp]:
  "py_add (Num 0) (Op B) = Op B" "py_add (Op A) (Op B) = Op (add A B)" "py_add (Num 0) (Num 0) = Num 0"
  by (simp_all add: py_add_def)

lemma foldl_py_add_Op:
  "foldl (\<lambda>h n. py_add h (Op (f n))) (Op q) ns = Op (foldl add q (map f ns))"
  by (induction ns arbitrary: q) simp_all

lemma foldl_py_add_Num0:
  "foldl (\<lambda>h n. py_add h (Op (f n))) (Num 0) (n # ns) = Op (foldl add (f n) (map f ns))"
  by (simp add: foldl_py_add_Op)

lemma py_sum_Op: "py_sum (map (\<lambda>n. Op (f n)) (n # ns)) = Op (foldl add (f n) (map f ns))"
  using foldl_py_add_Num0[of f n ns] by (simp add: py_sum_def foldl_map)

lemma heis_loop_eq:
  "heis_loop N ns (xs, ys, zs) =
     (xs @ map (embed_single (replicate N 2) sigmax) ns,
      ys @ map (embed_single (replicate N 2) sigmay) ns,
      zs @ map (embed_single (replicate N 2) sigmaz) ns)"
  by (induction ns arbitrary: xs ys zs) (simp_all add: embed_single_def)

lemma heis_pair:
  assumes "Suc n < N" "wf A" "sz A = 2" "dims A = [2]"
  shows "mult (smult c (embed_single (replicate N 2) A n)) (embed_single (replicate N 2) A (Suc n))
       = smult c (embed_joint (replicate N 2) [n \<mapsto> A, n + 1 \<mapsto> A])"
proof -
  have "mult (embed_single (replicate N 2) A n) (embed_single (replicate N 2) A (Suc n))
      = embed_joint (replicate N 2) [n \<mapsto> A, Suc n \<mapsto> A]"
    using assms embed_mult[of n "replicate N 2" "Suc n" A A] embed_joint_two[of n "replicate N 2" "Suc n" A A]
    by simp
  then show ?thesis by (simp add: mult_smult_left)
qed

lemma heis_build_eq:
  assumes "2 \<le> N"
  shows "fst (HeisenbergSpinChain_build self N Jx Jy Jz)
    = Inr (Op (foldl add (heis_coupling N (cx Jx) (cx Jy) (cx Jz) 0) (map (heis_coupling N (cx Jx) (cx Jy) (cx Jz)) [1..<N - 1])))"
proof -
  let ?sx = "map (embed_single (replicate N 2) sigmax) [0..<N]"
  let ?sy = "map (embed_single (replicate N 2) sigmay) [0..<N]"
  let ?sz = "map (embed_single (replicate N 2) sigmaz) [0..<N]"
  let ?f = "\<lambda>n. add (add (mult (smult (cx Jx) (?sx ! n)) (?sx ! (n + 1)))
                                (mult (smult (cx Jy) (?sy ! n)) (?sy ! (n + 1))))
                           (mult (smult (cx Jz) (?sz ! n)) (?sz ! (n + 1)))"
  have f: "?f n = heis_coupling N (cx Jx) (cx Jy) (cx Jz) n" if "n \<in> set [0..<N - 1]" for n
  proof -
    have n: "Suc n < N" using that by auto
    then have n': "n < N" by simp
    show ?thesis using n n'
      by (simp add: heis_coupling_def heis_pair del: fun_upd_apply)
  qed
  have l: "[0..<N - 1] = 0 # [1..<N - 1]" using assms by (simp add: upt_conv_Cons)
  have "foldl (\<lambda>h n. py_add h (Op (?f n))) (Num 0) [0..<N - 1]
      = foldl (\<lambda>h n. py_add h (Op (heis_coupling N (cx Jx) (cx Jy) (cx Jz) n))) (Num 0) [0..<N - 1]"
    by (rule foldl_cong) (simp_all only: f)
  also have "\<dots> = Op (foldl add (heis_coupling N (cx Jx) (cx Jy) (cx Jz) 0) (map (heis_coupling N (cx Jx) (cx Jy) (cx Jz)) [1..<N - 1]))"
    by (subst l) (rule foldl_py_add_Num0)
  finally have fold: "foldl (\<lambda>h n. py_add h (Op (?f n))) (Num 0) [0..<N - 1]
      = Op (foldl add (heis_coupling N (cx Jx) (cx Jy) (cx Jz) 0) (map (heis_coupling N (cx Jx) (cx Jy) (cx Jz)) [1..<N - 1]))" .
  have b: "fst (HeisenbergSpinChain_build self N Jx Jy Jz)
      = Inr (foldl (\<lambda>h n. py_add h (Op (?f n))) (Num 0) [0..<N - 1])"
    by (simp add: HeisenbergSpinChain_build_def heis_loop_eq Let_def)
  show ?thesis by (simp only: b fold)
qed

lemma isherm_embed_joint:
  assumes "\<And>k A. ops k = Some A \<Longrightarrow> isherm A"
  shows "isherm (embed_joint ds ops)"
  unfolding embed_joint_def
  by (rule isherm_tensor) (auto simp: isherm_qeye assms split: option.splits)

lemma sz_embed_joint:
  assumes "\<And>k A. k < length ds \<Longrightarrow> ops k = Some A \<Longrightarrow> sz A = ds ! k"
  shows "sz (embed_joint ds ops) = prod_list ds"
proof -
  have "map sz (map (\<lambda>k. case ops k of Some A \<Rightarrow> A | None \<Rightarrow> qeye (ds ! k)) [0..<length ds]) = ds"
    by (intro nth_equalityI) (auto simp: assms split: option.splits)
  then show ?thesis by (simp only: embed_joint_def sz_tensor)
qed

lemma dims_embed_joint:
  assumes "\<And>k A. k < length ds \<Longrightarrow> ops k = Some A \<Longrightarrow> dims A = [ds ! k]"
  shows "dims (embed_joint ds ops) = ds"
proof -
  have "map dims (map (\<lambda>k. case ops k of Some A \<Rightarrow> A | None \<Rightarrow> qeye (ds ! k)) [0..<length ds])
      = map (\<lambda>n. [n]) ds"
    by (intro nth_equalityI) (auto simp: assms split: option.splits)
  then show ?thesis by (simp only: embed_joint_def dims_tensor concat_singletons)
qed

lemma sz_embed_pair:
  "sz A = 2 \<Longrightarrow> sz B = 2 \<Longrightarrow> sz (embed_joint (replicate N 2) [n \<mapsto> A, m \<mapsto> B]) = 2 ^ N"
  by (subst sz_embed_joint) (auto split: if_splits)

lemma dims_embed_pair:
  "dims A = [2] \<Longrightarrow> dims B = [2] \<Longrightarrow>
   dims (embed_joint (replicate N 2) [n \<mapsto> A, m \<mapsto> B]) = replicate N 2"
  by (subst dims_embed_joint) (auto split: if_splits)

lemma sz_heis_coupling: "sz (heis_coupling N Jx Jy Jz n) = 2 ^ N"
  by (simp add: heis_coupling_def sz_embed_pair)

lemma dims_heis_coupling: "dims (heis_coupling N Jx Jy Jz n) = replicate N 2"
  by (simp add: heis_coupling_def dims_embed_pair)

lemma isherm_heis_coupling:
  assumes "Im Jx = 0" "Im Jy = 0" "Im Jz = 0"
  shows "isherm (heis_coupling N Jx Jy Jz n)"
  unfolding heis_coupling_def using assms
  by (intro isherm_add isherm_smult isherm_embed_joint)
     (auto simp: sz_embed_pair isherm_sigmax isherm_sigmay isherm_sigmaz split: if_splits)

lemma sz_foldl_add [simp]: "sz (foldl add q qs) = sz q"
  by (induction qs arbitrary: q) simp_all

lemma dims_foldl_add [simp]: "dims (foldl add q qs) = dims q"
  by (induction qs arbitrary: q) simp_all


subsection \<open>Tavis-Cummings\<close>




subsection \<open>Banded and diagonal matrices\<close>

lemma bandI: "(\<And>i j. ent A i j \<noteq> 0 \<Longrightarrow> int j = int i + k) \<Longrightarrow> band k A"
  unfolding band_def by blast

lemma bandD: "band k A \<Longrightarrow> ent A i j \<noteq> 0 \<Longrightarrow> int j = int i + k"
  unfolding band_def by blast

lemma ent_mk_nz: "ent (mk ds n f) i j \<noteq> 0 \<Longrightarrow> i < n \<and> j < n \<and> f i j \<noteq> 0"
  by (auto simp: mk_def split: if_splits)

lemma band_dag: "band k A \<Longrightarrow> band (- k) (dag A)"
proof (rule bandI)
  fix i j assume b: "band k A" and "ent (dag A) i j \<noteq> 0"
  then have "ent A j i \<noteq> 0" by (auto simp: dag_def dest!: ent_mk_nz)
  from bandD[OF b this] show "int j = int i + - k" by simp
qed

lemma band_smult: "band k A \<Longrightarrow> band k (smult c A)"
proof (rule bandI)
  fix i j assume b: "band k A" and "ent (smult c A) i j \<noteq> 0"
  then have "ent A i j \<noteq> 0" by (auto simp: smult_def dest!: ent_mk_nz)
  from bandD[OF b this] show "int j = int i + k" .
qed



lemma band_mult: "band k A \<Longrightarrow> band l B \<Longrightarrow> band (k + l) (mult A B)"
proof (rule bandI)
  fix i j assume a: "band k A" and b: "band l B" and "ent (mult A B) i j \<noteq> 0"
  then have "(\<Sum>m<sz A. ent A i m * ent B m j) \<noteq> 0" by (auto simp: mult_def dest!: ent_mk_nz)
  then obtain m where "ent A i m * ent B m j \<noteq> 0"
    by (metis (no_types, lifting) sum.neutral)
  then have "ent A i m \<noteq> 0" "ent B m j \<noteq> 0" by simp_all
  from bandD[OF a this(1)] bandD[OF b this(2)] show "int j = int i + (k + l)" by simp
qed

lemma band_kron: "band k A \<Longrightarrow> band l B \<Longrightarrow> band (k * int (sz B) + l) (kron A B)"
proof (rule bandI)
  fix i j assume a: "band k A" and b: "band l B" and "ent (kron A B) i j \<noteq> 0"
  then have nz: "ent A (i div sz B) (j div sz B) \<noteq> 0" "ent B (i mod sz B) (j mod sz B) \<noteq> 0"
    by (auto simp: kron_def dest!: ent_mk_nz)
  have 1: "int (j div sz B) = int (i div sz B) + k" by (rule bandD[OF a nz(1)])
  have 2: "int (j mod sz B) = int (i mod sz B) + l" by (rule bandD[OF b nz(2)])
  have "int j = int (j div sz B) * int (sz B) + int (j mod sz B)"
    by (metis div_mult_mod_eq of_nat_add of_nat_mult)
  also have "\<dots> = (int (i div sz B) * int (sz B) + int (i mod sz B)) + (k * int (sz B) + l)"
    by (simp add: 1 2 algebra_simps)
  also have "int (i div sz B) * int (sz B) + int (i mod sz B) = int i"
    by (metis div_mult_mod_eq of_nat_add of_nat_mult)
  finally show "int j = int i + (k * int (sz B) + l)" .
qed

lemma band_qeye: "band 0 (qeye n)"
  by (rule bandI) (auto simp: qeye_def dest!: ent_mk_nz split: if_splits)

lemma band_destroy: "band 1 (destroy n)"
  by (rule bandI) (auto simp: destroy_def dest!: ent_mk_nz split: if_splits)

lemma banded_foldl_kron:
  "\<exists>k. band k q \<Longrightarrow> \<forall>x\<in>set qs. \<exists>k. band k x \<Longrightarrow> \<exists>k. band k (foldl kron q qs)"
proof (induction qs arbitrary: q)
  case Nil
  then show ?case by simp
next
  case (Cons a qs)
  from Cons.prems obtain k l where "band k q" "band l a" by auto
  then have "\<exists>k. band k (kron q a)" using band_kron by blast
  then show ?case using Cons.prems by (simp add: Cons.IH)
qed

lemma banded_embed:
  assumes "band k A" "i < length ds"
  shows "\<exists>k. band k (embed_single ds A i)"
proof -
  have all: "\<forall>x\<in>set ((map qeye ds)[i := A]). \<exists>k. band k x"
  proof
    fix x assume "x \<in> set ((map qeye ds)[i := A])"
    then have "x = A \<or> x \<in> set (map qeye ds)"
      using set_update_subset_insert[of "map qeye ds" i A] by auto
    then show "\<exists>k. band k x" using assms(1) band_qeye by auto
  qed
  obtain q rest where qr: "(map qeye ds)[i := A] = q # rest"
    using assms(2) by (cases "(map qeye ds)[i := A]") auto
  with all have "\<exists>k. band k (foldl kron q rest)" by (intro banded_foldl_kron) auto
  then show ?thesis by (simp add: embed_single_def tensor_def qr)
qed


subsection \<open>Bose-Hubbard\<close>



lemma bh_site:
  assumes "j < M"
  shows "tensor (map (\<lambda>i. if i = j then destroy L else qeye L) [0..<M])
       = embed_single (replicate M L) (destroy L) j"
proof -
  have "map (\<lambda>i. if i = j then destroy L else qeye L) [0..<M]
      = (map qeye (replicate M L))[j := destroy L]"
    using assms by (intro nth_equalityI) (auto simp: nth_list_update)
  then show ?thesis by (simp only: embed_single_def)
qed

lemma py_sum_Nil [simp]: "py_sum [] = Num 0"
  by (simp add: py_sum_def)

lemma bh_build_eq:
  assumes "M = 0 \<or> 2 \<le> L"
  shows "fst (BoseHubbard_build self M L t U)
     = Inr (py_add (py_sum (map (\<lambda>i. Op (bh_hop M L (cx t) i)) [0..<M - 1]))
                   (py_sum (map (\<lambda>i. Op (bh_ons M L (cx U) i)) [0..<M])))"
proof -
  define a where "a = map (\<lambda>j. tensor (map (\<lambda>i. if i = j then map (\<lambda>_. destroy L) [0..<M] ! j else qeye L) [0..<M])) [0..<M]"
  have a: "a ! j = embed_single (replicate M L) (destroy L) j" if "j < M" for j
    using that by (simp add: a_def bh_site cong: if_cong)
  have hop: "map (\<lambda>i. Op (smult (- cx t) (add (mult (dag (a ! i)) (a ! (i + 1))) (mult (dag (a ! (i + 1))) (a ! i))))) [0..<M - 1]
      = map (\<lambda>i. Op (bh_hop M L (cx t) i)) [0..<M - 1]"
    by (rule map_cong[OF refl]) (simp add: bh_hop_def a)
  have ons: "map (\<lambda>i. Op (mult (mult (mult (smult (0.5 * cx U) (dag (a ! i))) (dag (a ! i))) (a ! i)) (a ! i))) [0..<M]
      = map (\<lambda>i. Op (bh_ons M L (cx U) i)) [0..<M]"
    by (rule map_cong[OF refl]) (simp add: bh_ons_def a)
  have "fst (BoseHubbard_build self M L t U)
      = Inr (py_add (py_sum (map (\<lambda>i. Op (smult (- cx t) (add (mult (dag (a ! i)) (a ! (i + 1))) (mult (dag (a ! (i + 1))) (a ! i))))) [0..<M - 1]))
                    (py_sum (map (\<lambda>i. Op (mult (mult (mult (smult (0.5 * cx U) (dag (a ! i))) (dag (a ! i))) (a ! i)) (a ! i))) [0..<M])))"
    using assms by (auto simp: BoseHubbard_build_def Let_def a_def)
  then show ?thesis by (simp only: hop ons)
qed

lemma bh_build_op:
  assumes "0 < M" "2 \<le> L"
  shows "fst (BoseHubbard_build self M L t U)
     = Inr (Op (if M = 1 then bh_ons M L (cx U) 0
                else add (foldl add (bh_hop M L (cx t) 0) (map (bh_hop M L (cx t)) [1..<M - 1]))
                         (foldl add (bh_ons M L (cx U) 0) (map (bh_ons M L (cx U)) [1..<M]))))"
proof -
  have l: "[0..<M] = 0 # [1..<M]" using assms(1) by (simp add: upt_conv_Cons)
  have ons: "py_sum (map (\<lambda>i. Op (bh_ons M L (cx U) i)) [0..<M])
      = Op (foldl add (bh_ons M L (cx U) 0) (map (bh_ons M L (cx U)) [1..<M]))"
    by (subst l) (rule py_sum_Op)
  show ?thesis
  proof (cases "M = 1")
    case True
    then show ?thesis by (simp add: bh_build_eq[OF disjI2[OF assms(2)]] py_sum_def)
  next
    case False
    then have l': "[0..<M - 1] = 0 # [1..<M - 1]" using assms(1) by (simp add: upt_conv_Cons)
    have hop: "py_sum (map (\<lambda>i. Op (bh_hop M L (cx t) i)) [0..<M - 1])
      = Op (foldl add (bh_hop M L (cx t) 0) (map (bh_hop M L (cx t)) [1..<M - 1]))"
      by (subst l') (rule py_sum_Op)
    show ?thesis using False by (simp only: bh_build_eq[OF disjI2[OF assms(2)]] hop ons py_add_simps if_False)
  qed
qed

lemma bh_site_props:
  assumes "j < M"
  shows "wf (embed_single (replicate M L) (destroy L) j)"
    "sz (embed_single (replicate M L) (destroy L) j) = L ^ M"
    "dims (embed_single (replicate M L) (destroy L) j) = replicate M L"
  using assms by (simp_all add: wf_embed sz_embed dims_embed)

lemma sz_bh [simp]:
  "sz (bh_hop M L t i) = sz (embed_single (replicate M L) (destroy L) i)"
  "sz (bh_ons M L U i) = sz (embed_single (replicate M L) (destroy L) i)"
  "dims (bh_hop M L t i) = dims (embed_single (replicate M L) (destroy L) i)"
  "dims (bh_ons M L U i) = dims (embed_single (replicate M L) (destroy L) i)"
  by (simp_all add: bh_hop_def bh_ons_def)




lemma band_bh_ons:
  assumes "i < M"
  shows "band 0 (bh_ons M L U i)"
proof -
  obtain k where k: "band k (embed_single (replicate M L) (destroy L) i)"
    using banded_embed[OF band_destroy, of i "replicate M L" L] assms by auto
  have "band (((- k + - k) + k) + k) (bh_ons M L U i)"
    unfolding bh_ons_def by (intro band_mult band_smult band_dag k)
  then show ?thesis by simp
qed

lemma band_site_number:
  assumes "j < M"
  shows "band 0 (site_number M L j)"
proof -
  obtain k where k: "band k (embed_single (replicate M L) (destroy L) j)"
    using banded_embed[OF band_destroy, of j "replicate M L" L] assms by auto
  have "band (- k + k) (site_number M L j)"
    unfolding site_number_def by (intro band_mult band_dag k)
  then show ?thesis by simp
qed




subsection \<open>Evaluating entries of small matrices\<close>

lemma sum_lessThan_2: "(\<Sum>k<2. f k) = f 0 + f (1::nat)"
  by (simp add: numeral_2_eq_2)

lemma sum_lessThan_4: "(\<Sum>k<4. f k) = f 0 + f 1 + f 2 + f (3::nat)"
  by (simp add: eval_nat_numeral)

lemmas ent_eval = add_def mult_def smult_def dag_def kron_def qeye_def destroy_def
  sigmax_def sigmay_def sigmaz_def tensor_def sum_lessThan_2 sum_lessThan_4

subsection \<open>Tolerance, relabelling, trace; one atom against Jaynes-Cummings\<close>















subsection \<open>Builds that return without an operator check\<close>





subsection \<open>Independence of the object state\<close>

lemma builds_state_free:
  "fst (JaynesCummings_build self N wc wa g) = fst (JaynesCummings_build self' N wc wa g)"
  "fst (RabiModel_build self N wc wa g) = fst (RabiModel_build self' N wc wa g)"
  "fst (TavisCummings_build self N_atoms N_cavity wc wa g) = fst (TavisCummings_build self' N_atoms N_cavity wc wa g)"
  "fst (DickeModel_build self N_atoms N_cavity wc wa g) = fst (DickeModel_build self' N_atoms N_cavity wc wa g)"
  "fst (HeisenbergSpinChain_build self N_spins Jx Jy Jz) = fst (HeisenbergSpinChain_build self' N_spins Jx Jy Jz)"
  "fst (BoseHubbard_build self N_sites N_levels t U) = fst (BoseHubbard_build self' N_sites N_levels t U)"
  by (simp_all add: JaynesCummings_build_def RabiModel_build_def TavisCummings_build_def
      DickeModel_build_def HeisenbergSpinChain_build_def BoseHubbard_build_def Let_def
      split: prod.splits sum.splits)


subsection \<open>Hopping does couple site occupations\<close>

text \<open>With \<open>t = 1\<close> on two sites the operator returned does not commute with the
  number operator of site \<open>0\<close>: commuting with the site numbers is a real restriction.\<close>

lemma embed_two_sites:
  "embed_single (replicate 2 L) A 0 = kron A (qeye L)"
  "embed_single (replicate 2 L) A (Suc 0) = kron (qeye L) A"
  by (simp_all add: embed_single_def tensor_def numeral_2_eq_2)

lemma band0_off: "band 0 A \<Longrightarrow> i \<noteq> j \<Longrightarrow> ent A i j = 0"
  using bandD[of 0 A i j] by auto

lemma hop_entry: "ent (bh_hop 2 2 1 0) (Suc 0) 2 = - 1"
  by (simp add: bh_hop_def embed_two_sites ent_eval)

lemma number_entries: "ent (site_number 2 2 0) (Suc 0) (Suc 0) = 0" "ent (site_number 2 2 0) 2 2 = 1"
  by (simp_all add: site_number_def embed_two_sites ent_eval)

lemma hop_no_commute:
  "fst (BoseHubbard_build self 2 2 (PFloat 1) (PFloat 0)) = Inr (Op Q) \<Longrightarrow>
   mult Q (site_number 2 2 0) \<noteq> mult (site_number 2 2 0) Q"
proof
  let ?n = "site_number 2 2 0"
  assume a: "fst (BoseHubbard_build self 2 2 (PFloat 1) (PFloat 0)) = Inr (Op Q)" and c: "mult Q ?n = mult ?n Q"
  have Q: "Q = add (bh_hop 2 2 1 0) (add (bh_ons 2 2 0 0) (bh_ons 2 2 0 1))"
    using a by (simp add: bh_build_op upt_rec)
  have n: "band 0 ?n" by (rule band_site_number) simp
  have off: "ent ?n 0 2 = 0" "ent ?n (Suc 0) 2 = 0" "ent ?n 3 2 = 0" "ent ?n (Suc 0) 0 = 0" "ent ?n (Suc 0) 2 = 0" "ent ?n (Suc 0) 3 = 0"
    using n by (simp_all add: band0_off)
  have o: "ent (bh_ons 2 2 0 0) (Suc 0) 2 = 0" "ent (bh_ons 2 2 0 (Suc 0)) (Suc 0) 2 = 0"
    by (rule band0_off[OF band_bh_ons]; simp)+
  have szs: "sz Q = 4" "sz ?n = 4"
    using bh_site_props(2)[of 0 2 2] by (simp_all add: Q site_number_def)
  have q12: "ent Q (Suc 0) 2 = - 1"
    using bh_site_props(2)[of 0 2 2] by (simp add: Q add_def o hop_entry)
  have "ent (mult Q ?n) (Suc 0) 2 = - 1"
    by (simp add: mult_def szs sum_lessThan_4 off number_entries q12)
  moreover have "ent (mult ?n Q) (Suc 0) 2 = 0"
    by (simp add: mult_def szs sum_lessThan_4 off number_entries q12)
  ultimately show False using c by simp
qed

subsection \<open>What a build does to its object\<close>

lemma build_effect:
  "snd (JaynesCummings_build self N wc wa g)
     = self\<lparr>params := [(''N'', PInt (int N)), (''wc'', wc), (''wa'', wa), (''g'', g)],
             H := (case fst (JaynesCummings_build self N wc wa g) of
                     Inr v \<Rightarrow> Some v | Inl e \<Rightarrow> H self)\<rparr>"
  "snd (RabiModel_build self N wc wa g)
     = self\<lparr>params := [(''N'', PInt (int N)), (''wc'', wc), (''wa'', wa), (''g'', g)],
             H := (case fst (RabiModel_build self N wc wa g) of
                     Inr v \<Rightarrow> Some v | Inl e \<Rightarrow> H self)\<rparr>"
  "snd (TavisCummings_build self N_atoms N_cavity wc wa g)
     = self\<lparr>params := [(''N_atoms'', PInt (int N_atoms)), (''N_cavity'', PInt (int N_cavity)),
                        (''wc'', wc), (''wa'', wa), (''g'', g)],
             H := (case fst (TavisCummings_build self N_atoms N_cavity wc wa g) of
                     Inr v \<Rightarrow> Some v | Inl e \<Rightarrow> H self)\<rparr>"
  "snd (DickeModel_build self N_atoms N_cavity wc wa g)
     = self\<lparr>params := [(''N_atoms'', PInt (int N_atoms)), (''N_cavity'', PInt (int N_cavity)),
                        (''wc'', wc), (''wa'', wa), (''g'', g)],
             H := (case fst (DickeModel_build self N_atoms N_cavity wc wa g) of
                     Inr v \<Rightarrow> Some v | Inl e \<Rightarrow> H self)\<rparr>"
  "snd (HeisenbergSpinChain_build self N_spins Jx Jy Jz)
     = self\<lparr>params := [(''N_spins'', PInt (int N_spins)), (''Jx'', Jx), (''Jy'', Jy),
                        (''Jz'', Jz)],
             H := (case fst (HeisenbergSpinChain_build self N_spins Jx Jy Jz) of
                     Inr v \<Rightarrow> Some v | Inl e \<Rightarrow> H self)\<rparr>"
  "snd (BoseHubbard_build self N_sites N_levels t U)
     = self\<lparr>params := [(''N_sites'', PInt (int N_sites)), (''N_levels'', PInt (int N_levels)),
                        (''t'', t), (''U'', U)],
             H := (case fst (BoseHubbard_build self N_sites N_levels t U) of
                     Inr v \<Rightarrow> Some v | Inl e \<Rightarrow> H self)\<rparr>"
  by (cases self; simp add: JaynesCummings_build_def RabiModel_build_def TavisCummings_build_def
      DickeModel_build_def HeisenbergSpinChain_build_def BoseHubbard_build_def Let_def
      split: prod.splits sum.splits)+

section \<open>Shapes\<close>



section \<open>Serialisation before a build\<close>




section \<open>Hermiticity of the catalogued models\<close>



section \<open>Chains and lattices with fewer than two sites\<close>




section \<open>No validation step\<close>




section \<open>One atom against Jaynes-Cummings\<close>




section \<open>The chain of three spins\<close>

text \<open>
  Claim C5.  \<^verbatim>\<open>HeisenbergSpinChain.build\<close> with three spins and \<open>Jx = Jy = Jz = 1.0\<close>
  raises nothing and returns an operator over three two-level sites, of shape
  \<open>(8, 8)\<close>, that is Hermitian and is the sum of exactly the two nearest-neighbour
  coupling terms for \<open>n = 0\<close> and \<open>n = 1\<close>.
\<close>

theorem heisenberg_three_spins:
  "\<exists>Q. fst (HeisenbergSpinChain_build self 3 (PFloat 1) (PFloat 1) (PFloat 1)) = Inr (Op Q)
       \<and> dims Q = [2, 2, 2] \<and> shape Q = (8, 8) \<and> isherm Q
       \<and> Q = add (heis_coupling 3 1 1 1 0) (heis_coupling 3 1 1 1 1)"
proof -
  have "fst (HeisenbergSpinChain_build self 3 (PFloat 1) (PFloat 1) (PFloat 1))
      = Inr (Op (add (heis_coupling 3 1 1 1 0) (heis_coupling 3 1 1 1 1)))"
    using heis_build_eq[of 3 self "PFloat 1" "PFloat 1" "PFloat 1"] by (simp add: upt_rec)
  moreover have "isherm (add (heis_coupling 3 1 1 1 0) (heis_coupling 3 1 1 1 1))"
    by (intro isherm_add isherm_heis_coupling) (simp_all add: sz_heis_coupling)
  ultimately show ?thesis
    by (simp add: shape_def sz_heis_coupling dims_heis_coupling eval_nat_numeral)
qed

theorem heisenberg_three_spins_witness:
  "\<exists>Q. fst (HeisenbergSpinChain_build (init ''Heisenberg-Chain'' None) 3
             (PFloat 1) (PFloat 1) (PFloat 1)) = Inr (Op Q)
       \<and> shape Q = (8, 8) \<and> isherm Q"
  using heisenberg_three_spins[of "init ''Heisenberg-Chain'' None"] by blast

section \<open>Bose-Hubbard without hopping\<close>



section \<open>Composing single-site embeddings\<close>

text \<open>
  Claim C8.  Over any composite space with subsystem dimensions \<open>ds\<close>, for two
  distinct sites \<open>i\<close> and \<open>j\<close> and local matrices \<open>A\<close>, \<open>B\<close> of the dimensions of
  these sites, the product of \<open>A\<close> embedded at \<open>i\<close> and \<open>B\<close> embedded at \<open>j\<close> is the
  joint embedding with \<open>A\<close> at \<open>i\<close>, \<open>B\<close> at \<open>j\<close> and the identity at every other
  site.  The two-site terms of the Heisenberg chain are such products.
\<close>

theorem embed_single_compose:
  assumes "i < length ds" "j < length ds" "i \<noteq> j"
    and "wf A" "sz A = ds ! i" "dims A = [ds ! i]"
    and "wf B" "sz B = ds ! j" "dims B = [ds ! j]"
  shows "mult (embed_single ds A i) (embed_single ds B j) = embed_joint ds [i \<mapsto> A, j \<mapsto> B]"
  using embed_mult[OF assms] embed_joint_two[OF assms(1,2,3)] by simp

theorem embed_single_compose_witness:
  "mult (embed_single [2, 2, 2] sigmax 0) (embed_single [2, 2, 2] sigmay 1)
     = embed_joint [2, 2, 2] [0 \<mapsto> sigmax, 1 \<mapsto> sigmay]"
  using embed_single_compose[of 0 "[2, 2, 2]" 1 sigmax sigmay] by simp

section \<open>Determinism and the object state\<close>

text \<open>
  Claim C9, as stated, fails: \<^verbatim>\<open>build\<close> is not pure.  It assigns \<^verbatim>\<open>self.params\<close> and
  \<^verbatim>\<open>self.H\<close>: after a Jaynes-Cummings build on a fresh object both fields differ from
  what they were.
\<close>

theorem build_not_pure_counterexample:
  "H (snd (JaynesCummings_build (init ''Jaynes-Cummings'' None) 5
             (PFloat 1) (PFloat 1) (PFloat (1 / 10))))
     \<noteq> H (init ''Jaynes-Cummings'' None)
   \<and> params (snd (JaynesCummings_build (init ''Jaynes-Cummings'' None) 5
             (PFloat 1) (PFloat 1) (PFloat (1 / 10))))
     \<noteq> params (init ''Jaynes-Cummings'' None)"
  by (simp add: JaynesCummings_build_def Let_def init_def)

text \<open>
  Claim C9, amended.  Every builder is deterministic but not pure.  The value it
  returns depends on its parameters only: two invocations with the same parameters,
  on any two objects and so also twice on the same object, return the same value,
  summed in the source's order.  Its only effect is on the object it is called on:
  \<^verbatim>\<open>self.params\<close> becomes the dictionary of the parameters and, when no exception is
  raised, \<^verbatim>\<open>self.H\<close> becomes the returned value; the name is left alone.
\<close>

theorem builds_deterministic:
  "(fst (JaynesCummings_build self N wc wa g) = fst (JaynesCummings_build self' N wc wa g)
    \<and> snd (JaynesCummings_build self N wc wa g)
        = self\<lparr>params := [(''N'', PInt (int N)), (''wc'', wc), (''wa'', wa), (''g'', g)],
                H := (case fst (JaynesCummings_build self N wc wa g) of
                        Inr v \<Rightarrow> Some v | Inl e \<Rightarrow> H self)\<rparr>)
   \<and> (fst (RabiModel_build self N wc wa g) = fst (RabiModel_build self' N wc wa g)
    \<and> snd (RabiModel_build self N wc wa g)
        = self\<lparr>params := [(''N'', PInt (int N)), (''wc'', wc), (''wa'', wa), (''g'', g)],
                H := (case fst (RabiModel_build self N wc wa g) of
                        Inr v \<Rightarrow> Some v | Inl e \<Rightarrow> H self)\<rparr>)
   \<and> (fst (TavisCummings_build self N_atoms N_cavity wc wa g)
        = fst (TavisCummings_build self' N_atoms N_cavity wc wa g)
    \<and> snd (TavisCummings_build self N_atoms N_cavity wc wa g)
        = self\<lparr>params := [(''N_atoms'', PInt (int N_atoms)), (''N_cavity'', PInt (int N_cavity)),
                           (''wc'', wc), (''wa'', wa), (''g'', g)],
                H := (case fst (TavisCummings_build self N_atoms N_cavity wc wa g) of
                        Inr v \<Rightarrow> Some v | Inl e \<Rightarrow> H self)\<rparr>)
   \<and> (fst (DickeModel_build self N_atoms N_cavity wc wa g)
        = fst (DickeModel_build self' N_atoms N_cavity wc wa g)
    \<and> snd (DickeModel_build self N_atoms N_cavity wc wa g)
        = self\<lparr>params := [(''N_atoms'', PInt (int N_atoms)), (''N_cavity'', PInt (int N_cavity)),
                           (''wc'', wc), (''wa'', wa), (''g'', g)],
                H := (case fst (DickeModel_build self N_atoms N_cavity wc wa g) of
                        Inr v \<Rightarrow> Some v | Inl e \<Rightarrow> H self)\<rparr>)
   \<and> (fst (HeisenbergSpinChain_build self N_spins Jx Jy Jz)
        = fst (HeisenbergSpinChain_build self' N_spins Jx Jy Jz)
    \<and> snd (HeisenbergSpinChain_build self N_spins Jx Jy Jz)
        = self\<lparr>params := [(''N_spins'', PInt (int N_spins)), (''Jx'', Jx), (''Jy'', Jy),
                           (''Jz'', Jz)],
                H := (case fst (HeisenbergSpinChain_build self N_spins Jx Jy Jz) of
                        Inr v \<Rightarrow> Some v | Inl e \<Rightarrow> H self)\<rparr>)
   \<and> (fst (BoseHubbard_build self N_sites N_levels t U)
        = fst (BoseHubbard_build self' N_sites N_levels t U)
    \<and> snd (BoseHubbard_build self N_sites N_levels t U)
        = self\<lparr>params := [(''N_sites'', PInt (int N_sites)), (''N_levels'', PInt (int N_levels)),
                           (''t'', t), (''U'', U)],
                H := (case fst (BoseHubbard_build self N_sites N_levels t U) of
                        Inr v \<Rightarrow> Some v | Inl e \<Rightarrow> H self)\<rparr>)"
  using builds_state_free(1)[of self N wc wa g self']
    builds_state_free(2)[of self N wc wa g self']
    builds_state_free(3)[of self N_atoms N_cavity wc wa g self']
    builds_state_free(4)[of self N_atoms N_cavity wc wa g self']
    builds_state_free(5)[of self N_spins Jx Jy Jz self']
    builds_state_free(6)[of self N_sites N_levels t U self']
    build_effect(1)[of self N wc wa g] build_effect(2)[of self N wc wa g]
    build_effect(3)[of self N_atoms N_cavity wc wa g]
    build_effect(4)[of self N_atoms N_cavity wc wa g]
    build_effect(5)[of self N_spins Jx Jy Jz] build_effect(6)[of self N_sites N_levels t U]
  by blast

theorem builds_deterministic_witness:
  "fst (JaynesCummings_build
          (snd (JaynesCummings_build (init ''Jaynes-Cummings'' None) 5
                  (PFloat 1) (PFloat 1) (PFloat (1 / 10))))
          5 (PFloat 1) (PFloat 1) (PFloat (1 / 10)))
     = fst (JaynesCummings_build (init ''Jaynes-Cummings'' None) 5
              (PFloat 1) (PFloat 1) (PFloat (1 / 10)))
   \<and> name (snd (JaynesCummings_build (init ''Jaynes-Cummings'' None) 5
              (PFloat 1) (PFloat 1) (PFloat (1 / 10)))) = ''Jaynes-Cummings''"
proof -
  note a = builds_deterministic[of
      "snd (JaynesCummings_build (init ''Jaynes-Cummings'' None) 5
              (PFloat 1) (PFloat 1) (PFloat (1 / 10)))"
      5 "PFloat 1" "PFloat 1" "PFloat (1 / 10)" "init ''Jaynes-Cummings'' None"]
  note b = builds_deterministic[of "init ''Jaynes-Cummings'' None" 5 "PFloat 1" "PFloat 1"
      "PFloat (1 / 10)"]
  have "name (snd (JaynesCummings_build (init ''Jaynes-Cummings'' None) 5
              (PFloat 1) (PFloat 1) (PFloat (1 / 10)))) = ''Jaynes-Cummings''"
    using b by (simp add: init_def)
  with a show ?thesis by blast
qed

end
